theory Spec2Isabelle
  imports Complex_Main
begin

section \<open>Python and numpy values\<close>

text \<open>
  The module \<^verbatim>\<open>pympc/plot.py\<close> turns trajectories and explicit-MPC solutions into calls of
  a plotting backend. Its functions return nothing: what they do is the sequence of backend
  calls they issue and the exception they may raise. Python floats are idealised as
  \<^typ>\<open>real\<close> (exact arithmetic), Python's unbounded integers are \<^typ>\<open>int\<close>, a list or a
  one-dimensional numpy array is a HOL list, and an exception is a value of \<open>error\<close>.
\<close>

datatype error = ValueError | IndexError | UnboundLocalError

definition bind_exn :: "error + 'a \<Rightarrow> ('a \<Rightarrow> error + 'b) \<Rightarrow> error + 'b" where
  "bind_exn r f = (case r of Inl e \<Rightarrow> Inl e | Inr v \<Rightarrow> f v)"

text \<open>\<^verbatim>\<open>xs[i]\<close> on a list or a 1-d array: indices from \<open>-len\<close> to \<open>len - 1\<close> are valid,
  the negative ones counting from the end; any other index raises IndexError.\<close>

definition getitem :: "'a list \<Rightarrow> int \<Rightarrow> error + 'a" where
  "getitem xs i =
     (if - int (length xs) \<le> i \<and> i < int (length xs)
      then Inr (xs ! nat (i mod int (length xs)))
      else Inl IndexError)"

text \<open>\<^verbatim>\<open>range(n)\<close> for a Python integer \<open>n\<close>: empty when \<open>n \<le> 0\<close>.\<close>

definition range_py :: "int \<Rightarrow> nat list" where
  "range_py n = [0..<nat n]"

text \<open>A list comprehension \<^verbatim>\<open>[f(k) for k in ks]\<close> whose element expression may raise:
  the first exception ends it.\<close>

fun list_comp :: "('i \<Rightarrow> error + 'a) \<Rightarrow> 'i list \<Rightarrow> error + 'a list" where
  "list_comp f [] = Inr []"
| "list_comp f (k # ks) =
     (case f k of
        Inl e \<Rightarrow> Inl e
      | Inr v \<Rightarrow> (case list_comp f ks of Inl e \<Rightarrow> Inl e | Inr vs \<Rightarrow> Inr (v # vs)))"

text \<open>\<^verbatim>\<open>str(n)\<close> for an integer: decimal digits, with a minus sign when negative.\<close>

fun str_nat :: "nat \<Rightarrow> string" where
  "str_nat n =
     (if n < 10 then [''0123456789'' ! n]
      else str_nat (n div 10) @ [''0123456789'' ! (n mod 10)])"

declare str_nat.simps [simp del]

definition str_int :: "int \<Rightarrow> string" where
  "str_int i = (if i < 0 then ''-'' @ str_nat (nat (- i)) else str_nat (nat i))"



text \<open>A two-dimensional numpy array: its shape and its entries in row-major order, entry
  \<open>(i, j)\<close> at position \<open>i * shape1 + j\<close>.\<close>

record ndarray2 =
  shape0 :: nat
  shape1 :: nat
  flat :: "real list"

text \<open>\<^verbatim>\<open>C.dot(v)\<close> for a 2-d \<open>C\<close> and a 1-d \<open>v\<close>: numpy raises ValueError when the
  shapes are not aligned, and returns the vector of the \<open>shape0\<close> row products otherwise.\<close>

definition dot :: "ndarray2 \<Rightarrow> real list \<Rightarrow> error + real list" where
  "dot C v =
     (if shape1 C \<noteq> length v then Inl ValueError
      else Inr (map (\<lambda>i. \<Sum>j\<leftarrow>[0..<shape1 C]. flat C ! (i * shape1 C + j) * v ! j)
                  [0..<shape0 C]))"

text \<open>\<^verbatim>\<open>np.linspace(start, stop, num)\<close> (endpoint included), following numpy: a negative
  \<open>num\<close> raises ValueError; with \<open>div = num - 1 > 0\<close> the points are
  \<open>k * ((stop - start) / div) + start\<close> and the last one is overwritten with \<open>stop\<close>;
  with \<open>div = 0\<close> they are \<open>k * (stop - start) + start\<close>.\<close>

definition linspace :: "real \<Rightarrow> real \<Rightarrow> int \<Rightarrow> error + real list" where
  "linspace start stop num =
     (if num < 0 then Inl ValueError
      else let n = nat num; d = n - 1; delta = stop - start
           in Inr (if d > 0
                   then (map (\<lambda>k. real k * (delta / real d) + start) [0..<n])[n - 1 := stop]
                   else map (\<lambda>k. real k * delta + start) [0..<n]))"

text \<open>\<^verbatim>\<open>np.ones(t.shape)\<close> for a 1-d array \<open>t\<close>.\<close>

definition ones :: "nat \<Rightarrow> real list" where
  "ones n = replicate n 1"

section \<open>The plotting backend as a log of calls\<close>

text \<open>
  Keyword arguments passed through to the backend are opaque: a list of names and printed
  values. A line created by \<^verbatim>\<open>plt.plot(t, ys, fmt)\<close> or \<^verbatim>\<open>plt.step(t, ys, fmt)\<close> is
  described by its data; the same value stands for the handle that the call returns.
  The calls of the plotting library and of \<^verbatim>\<open>polyhedron.plot\<close> are recorded with their
  arguments and taken to succeed: what the backend does with them is outside the module.
\<close>

type_synonym kwargs = "(string \<times> string) list"

datatype line = Line_plot "real list" "real list" string
  | Line_step "real list" "real list" string

record polyhedron =
  A :: ndarray2
  center :: "real list"
  vertices :: "real list list"

datatype call =
    Plot_label "real list" "real list" "string option" kwargs
  | Plot_kw "real list" "real list" kwargs
  | Draw line
  | Text real real string
  | Scatter real real kwargs
  | Xlabel string
  | Ylabel string
  | Xlim real real
  | Subplot nat nat nat
  | Legend "line list" "string list" int
  | Polyhedron_plot polyhedron "real list option" kwargs
  | Contour "real list list" "real list list" "real option list list"
  | Colorbar
  | Title string

text \<open>
  A run of plotting code: the backend calls issued so far, in order, and either the
  exception that ended the run or the value computed. The calls issued before an
  exception stay in the log, as they stay on the figure.
\<close>

type_synonym 'a run = "call list \<times> (error + 'a)"

definition pure :: "'a \<Rightarrow> 'a run" where
  "pure v = ([], Inr v)"

definition raise :: "error \<Rightarrow> 'a run" where
  "raise e = ([], Inl e)"

definition lift :: "error + 'a \<Rightarrow> 'a run" where
  "lift r = ([], r)"

definition emit :: "call \<Rightarrow> unit run" where
  "emit c = ([c], Inr ())"

definition then_do :: "'a run \<Rightarrow> ('a \<Rightarrow> 'b run) \<Rightarrow> 'b run" where
  "then_do m f =
     (case snd m of
        Inl e \<Rightarrow> (fst m, Inl e)
      | Inr v \<Rightarrow> (fst m @ fst (f v), snd (f v)))"

text \<open>A \<^verbatim>\<open>for\<close> loop whose body may assign local variables that outlive the iteration:
  the variables are the state \<open>s\<close> handed from one iteration to the next.\<close>

fun for_each :: "'i list \<Rightarrow> ('i \<Rightarrow> 's \<Rightarrow> 's run) \<Rightarrow> 's \<Rightarrow> 's run" where
  "for_each [] body s = pure s"
| "for_each (i # is) body s = then_do (body i s) (for_each is body)"

abbreviation calls :: "'a run \<Rightarrow> call list" where
  "calls r \<equiv> fst r"

abbreviation raised :: "'a run \<Rightarrow> error \<Rightarrow> bool" where
  "raised r e \<equiv> snd r = Inl e"

abbreviation returns :: "unit run \<Rightarrow> bool" where
  "returns r \<equiv> snd r = Inr ()"

section \<open>plot_state_space_trajectory\<close>

text \<open>The argument \<^verbatim>\<open>dim\<close> is written \<open>dims\<close>. The expression \<^verbatim>\<open>x[t][dim[d]]\<close>:\<close>

definition component :: "real list list \<Rightarrow> int list \<Rightarrow> int \<Rightarrow> int \<Rightarrow> error + real" where
  "component x dims t d =
     bind_exn (getitem x t) (\<lambda>x_t.
     bind_exn (getitem dims d) (\<lambda>j.
     getitem x_t j))"

text \<open>The two coordinate lists of the segment from \<open>x[t]\<close> to \<open>x[t+1]\<close>:
  \<^verbatim>\<open>[x[t][dim[0]], x[t+1][dim[0]]], [x[t][dim[1]], x[t+1][dim[1]]]\<close>\<close>

definition segment :: "real list list \<Rightarrow> int list \<Rightarrow> int \<Rightarrow> error + (real list \<times> real list)" where
  "segment x dims t =
     bind_exn (component x dims t 0) (\<lambda>a.
     bind_exn (component x dims (t + 1) 0) (\<lambda>b.
     bind_exn (component x dims t 1) (\<lambda>c.
     bind_exn (component x dims (t + 1) 1) (\<lambda>d.
     Inr ([a, b], [c, d])))))"

definition trajectory_step ::
  "real list list \<Rightarrow> int list \<Rightarrow> string option \<Rightarrow> kwargs \<Rightarrow> nat \<Rightarrow> unit \<Rightarrow> unit run" where
  "trajectory_step x dims label kw t _ =
     then_do (if t = 0
              then then_do (lift (segment x dims 0)) (\<lambda>(xs, ys). emit (Plot_label xs ys label kw))
              else pure ()) (\<lambda>_.
     then_do (lift (segment x dims (int t))) (\<lambda>(xs, ys).
     emit (Plot_kw xs ys kw)))"

definition text_step :: "real list list \<Rightarrow> bool \<Rightarrow> nat \<Rightarrow> unit \<Rightarrow> unit run" where
  "text_step x text t _ =
     (if text
      then then_do (lift (getitem x (int t))) (\<lambda>x_t.
           then_do (lift (getitem x_t 0)) (\<lambda>a.
           then_do (lift (getitem x_t 1)) (\<lambda>b.
           emit (Text a b (''$x('' @ str_int (int t) @ '')$'')))))
      else pure ())"

definition plot_state_space_trajectory ::
  "real list list \<Rightarrow> int list \<Rightarrow> bool \<Rightarrow> string option \<Rightarrow> kwargs \<Rightarrow> unit run" where
  "plot_state_space_trajectory x dims text label kw =
     (if length dims \<noteq> 2 then raise ValueError
      else
        then_do (for_each (range_py (int (length x) - 1)) (trajectory_step x dims label kw) ()) (\<lambda>_.
        then_do (for_each (range_py (int (length x))) (text_step x text) ()) (\<lambda>_.
        then_do (lift (component x dims 0 0)) (\<lambda>a.
        then_do (lift (component x dims 0 1)) (\<lambda>b.
        then_do (emit (Scatter a b [(''color'', ''w''), (''edgecolor'', ''k''), (''zorder'', ''3'')])) (\<lambda>_.
        then_do (lift (getitem dims 0)) (\<lambda>d0.
        then_do (emit (Xlabel (''$x_{'' @ str_int (d0 + 1) @ ''}$''))) (\<lambda>_.
        then_do (lift (getitem dims 1)) (\<lambda>d1.
        emit (Ylabel (''$x_{'' @ str_int (d1 + 1) @ ''}$'')))))))))))"

section \<open>plot_input_sequence, plot_state_trajectory, plot_output_trajectory\<close>

text \<open>
  The block \<^verbatim>\<open>if bounds is not None: for bound in bounds: bound_plot, = plt.step(t,
  bound[i]*np.ones(t.shape), 'r')\<close>, which the three functions share word for word. The
  local variable \<^verbatim>\<open>bound_plot\<close> is \<open>None\<close> as long as nothing was assigned to it.
\<close>

definition bound_step :: "real list \<Rightarrow> nat \<Rightarrow> real list \<Rightarrow> line option \<Rightarrow> line option run" where
  "bound_step t i bound _ =
     then_do (lift (getitem bound (int i))) (\<lambda>bound_i.
     let bound_plot = Line_step t (map (\<lambda>one. bound_i * one) (ones (length t))) ''r'' in
     then_do (emit (Draw bound_plot)) (\<lambda>_.
     pure (Some bound_plot)))"

definition plot_bounds ::
  "real list \<Rightarrow> real list list option \<Rightarrow> nat \<Rightarrow> line option \<Rightarrow> line option run" where
  "plot_bounds t bounds i bound_plot =
     (case bounds of
        None \<Rightarrow> pure bound_plot
      | Some bs \<Rightarrow> for_each bs (bound_step t i) bound_plot)"

text \<open>
  The block \<^verbatim>\<open>if i == 0: if bounds is not None: plt.legend([series_plot, bound_plot],
  [...], loc=1) else: plt.legend([series_plot], [...], loc=1)\<close>. Reading \<^verbatim>\<open>bound_plot\<close>
  before any assignment raises UnboundLocalError.
\<close>

definition make_legend ::
  "nat \<Rightarrow> real list list option \<Rightarrow> line \<Rightarrow> line option \<Rightarrow> string \<Rightarrow> string \<Rightarrow> unit run" where
  "make_legend i bounds series_plot bound_plot series_label bounds_label =
     (if i = 0
      then (if bounds \<noteq> None
            then (case bound_plot of
                    None \<Rightarrow> raise UnboundLocalError
                  | Some bp \<Rightarrow> emit (Legend [series_plot, bp] [series_label, bounds_label] 1))
            else emit (Legend [series_plot] [series_label] 1))
      else pure ())"

text \<open>\<^verbatim>\<open>[x[k][i] for k in range(n)]\<close>\<close>

definition column :: "real list list \<Rightarrow> nat \<Rightarrow> int \<Rightarrow> error + real list" where
  "column x i n =
     list_comp (\<lambda>k. bind_exn (getitem x (int k)) (\<lambda>x_k. getitem x_k (int i))) (range_py n)"

definition input_subplot ::
  "real list list \<Rightarrow> real \<Rightarrow> real list list option \<Rightarrow> nat \<Rightarrow> int \<Rightarrow> real list \<Rightarrow>
   nat \<Rightarrow> line option \<Rightarrow> line option run" where
  "input_subplot u h u_bounds nu N t i bound_plot =
     then_do (emit (Subplot nu 1 (i + 1))) (\<lambda>_.
     then_do (lift (column u i N)) (\<lambda>u_i_sequence.
     then_do (lift (getitem u_i_sequence 0)) (\<lambda>u_i_0.
     let input_plot = Line_step t (u_i_0 # u_i_sequence) ''b'' in
     then_do (emit (Draw input_plot)) (\<lambda>_.
     then_do (plot_bounds t u_bounds i bound_plot) (\<lambda>bound_plot.
     then_do (emit (Ylabel (''$u_{'' @ str_int (int i + 1) @ ''}$''))) (\<lambda>_.
     then_do (emit (Xlim 0 (real_of_int N * h))) (\<lambda>_.
     then_do (make_legend i u_bounds input_plot bound_plot
                ''Optimal control'' ''Control bounds'') (\<lambda>_.
     pure bound_plot))))))))"

definition plot_input_sequence ::
  "real list list \<Rightarrow> real \<Rightarrow> real list list option \<Rightarrow> unit run" where
  "plot_input_sequence u h u_bounds =
     then_do (lift (getitem u 0)) (\<lambda>u_0.
     let nu = length u_0; N = int (length u) in
     then_do (lift (linspace 0 (real_of_int N * h) (N + 1))) (\<lambda>t.
     then_do (for_each (range_py (int nu)) (input_subplot u h u_bounds nu N t) None) (\<lambda>_.
     emit (Xlabel ''$t$''))))"

definition state_subplot ::
  "real list list \<Rightarrow> real \<Rightarrow> real list list option \<Rightarrow> nat \<Rightarrow> int \<Rightarrow> real list \<Rightarrow>
   nat \<Rightarrow> line option \<Rightarrow> line option run" where
  "state_subplot x h x_bounds nx N t i bound_plot =
     then_do (emit (Subplot nx 1 (i + 1))) (\<lambda>_.
     then_do (lift (column x i (N + 1))) (\<lambda>x_i_trajectory.
     let state_plot = Line_plot t x_i_trajectory ''b'' in
     then_do (emit (Draw state_plot)) (\<lambda>_.
     then_do (plot_bounds t x_bounds i bound_plot) (\<lambda>bound_plot.
     then_do (emit (Ylabel (''$x_{'' @ str_int (int i + 1) @ ''}$''))) (\<lambda>_.
     then_do (emit (Xlim 0 (real_of_int N * h))) (\<lambda>_.
     then_do (make_legend i x_bounds state_plot bound_plot
                ''Optimal trajectory'' ''State bounds'') (\<lambda>_.
     pure bound_plot)))))))"

definition plot_state_trajectory ::
  "real list list \<Rightarrow> real \<Rightarrow> real list list option \<Rightarrow> unit run" where
  "plot_state_trajectory x h x_bounds =
     then_do (lift (getitem x 0)) (\<lambda>x_0.
     let nx = length x_0; N = int (length x) - 1 in
     then_do (lift (linspace 0 (real_of_int N * h) (N + 1))) (\<lambda>t.
     then_do (for_each (range_py (int nx)) (state_subplot x h x_bounds nx N t) None) (\<lambda>_.
     emit (Xlabel ''$t$''))))"

definition output_subplot ::
  "real list list \<Rightarrow> real \<Rightarrow> real list list option \<Rightarrow> nat \<Rightarrow> int \<Rightarrow> real list \<Rightarrow>
   nat \<Rightarrow> line option \<Rightarrow> line option run" where
  "output_subplot y h y_bounds ny N t i bound_plot =
     then_do (emit (Subplot ny 1 (i + 1))) (\<lambda>_.
     then_do (lift (column y i (N + 1))) (\<lambda>y_i_trajectory.
     let output_plot = Line_plot t y_i_trajectory ''b'' in
     then_do (emit (Draw output_plot)) (\<lambda>_.
     then_do (plot_bounds t y_bounds i bound_plot) (\<lambda>bound_plot.
     then_do (emit (Ylabel (''$y_{'' @ str_int (int i + 1) @ ''}$''))) (\<lambda>_.
     then_do (emit (Xlim 0 (real_of_int N * h))) (\<lambda>_.
     then_do (make_legend i y_bounds output_plot bound_plot
                ''Optimal trajectory'' ''Output bounds'') (\<lambda>_.
     pure bound_plot)))))))"

definition plot_output_trajectory ::
  "ndarray2 \<Rightarrow> real list list \<Rightarrow> real \<Rightarrow> real list list option \<Rightarrow> unit run" where
  "plot_output_trajectory C x h y_bounds =
     then_do (lift (list_comp (dot C) x)) (\<lambda>y.
     let ny = shape0 C; N = int (length x) - 1 in
     then_do (lift (linspace 0 (real_of_int N * h) (N + 1))) (\<lambda>t.
     then_do (for_each (range_py (int ny)) (output_subplot y h y_bounds ny N t) None) (\<lambda>_.
     emit (Xlabel ''$t$''))))"

section \<open>plot_partition_explicit_solution, plot_value_function_mpqp\<close>

text \<open>
  The classes \<^verbatim>\<open>ExplicitSolution\<close>, \<^verbatim>\<open>MultiParametricQuadraticProgram\<close> and the
  polyhedron belong to other modules; the records hold the attributes that the plotting code
  reads, and \<^verbatim>\<open>polyhedron.plot\<close> is a backend call like those of the plotting library.
  \<^verbatim>\<open>explicit_solution.V\<close> is the value function, \<open>None\<close> where it is undefined.
\<close>

record critical_region =
  polyhedron :: polyhedron
  active_set :: "int list"

record explicit_solution =
  critical_regions :: "critical_region list"
  V :: "real list \<Rightarrow> real option"





text \<open>Python's \<^verbatim>\<open>max\<close> and \<^verbatim>\<open>min\<close> of a list: ValueError when the list is empty.\<close>

definition max_py :: "real list \<Rightarrow> error + real" where
  "max_py xs = (case xs of [] \<Rightarrow> Inl ValueError | y # ys \<Rightarrow> Inr (fold max ys y))"

definition min_py :: "real list \<Rightarrow> error + real" where
  "min_py xs = (case xs of [] \<Rightarrow> Inl ValueError | y # ys \<Rightarrow> Inr (fold min ys y))"





section \<open>Reading the log\<close>

text \<open>
  \<^verbatim>\<open>plt.subplot(n, 1, k)\<close> makes subplot \<open>k\<close> the current axes, and the calls that follow
  act on it. \<open>on_axes cur log\<close> pairs every call with the subplot it acts on, \<open>cur\<close> being
  the one current at the start (0 stands for the axes current before any subplot was chosen).
\<close>

fun on_axes :: "nat \<Rightarrow> call list \<Rightarrow> (nat \<times> call) list" where
  "on_axes cur [] = []"
| "on_axes cur (Subplot n m k # cs) = (k, Subplot n m k) # on_axes k cs"
| "on_axes cur (c # cs) = (cur, c) # on_axes cur cs"

definition on_subplot :: "nat \<Rightarrow> call list \<Rightarrow> call list" where
  "on_subplot k cs = map snd (filter (\<lambda>p. fst p = k) (on_axes 0 cs))"

fun is_xlim :: "call \<Rightarrow> bool" where
  "is_xlim (Xlim _ _) = True"
| "is_xlim _ = False"

fun is_xlabel :: "call \<Rightarrow> bool" where
  "is_xlabel (Xlabel _) = True"
| "is_xlabel _ = False"

fun is_ylabel :: "call \<Rightarrow> bool" where
  "is_ylabel (Ylabel _) = True"
| "is_ylabel _ = False"

fun is_legend :: "call \<Rightarrow> bool" where
  "is_legend (Legend _ _ _) = True"
| "is_legend _ = False"

fun is_text :: "call \<Rightarrow> bool" where
  "is_text (Text _ _ _) = True"
| "is_text _ = False"

fun is_subplot :: "call \<Rightarrow> bool" where
  "is_subplot (Subplot _ _ _) = True"
| "is_subplot _ = False"

text \<open>The lines drawn with format \<^verbatim>\<open>'b'\<close> are the series; those with \<^verbatim>\<open>'r'\<close> the bounds.\<close>

fun is_series :: "call \<Rightarrow> bool" where
  "is_series (Draw (Line_plot _ _ fmt)) = (fmt = ''b'')"
| "is_series (Draw (Line_step _ _ fmt)) = (fmt = ''b'')"
| "is_series _ = False"


section \<open>The calls of a run that returns\<close>

text \<open>
  What the time-series functions issue when nothing fails, written down directly: the time
  axis, the series of a component, the lines of the bounds, and the calls of one subplot.
  The lemmas below show that a run that returns has issued exactly these.
\<close>

definition bound_line :: "real list \<Rightarrow> nat \<Rightarrow> real list \<Rightarrow> line" where
  "bound_line t i bound = Line_step t (replicate (length t) (bound ! i)) ''r''"

definition bound_calls :: "real list \<Rightarrow> nat \<Rightarrow> real list list option \<Rightarrow> call list" where
  "bound_calls t i bounds =
     (case bounds of None \<Rightarrow> [] | Some bs \<Rightarrow> map (\<lambda>bound. Draw (bound_line t i bound)) bs)"

definition legend_call ::
  "real list \<Rightarrow> real list list option \<Rightarrow> line \<Rightarrow> string \<Rightarrow> string \<Rightarrow> call" where
  "legend_call t bounds series series_label bounds_label =
     (case bounds of
        None \<Rightarrow> Legend [series] [series_label] 1
      | Some bs \<Rightarrow> Legend [series, bound_line t 0 (last bs)] [series_label, bounds_label] 1)"

definition subplot_calls ::
  "nat \<Rightarrow> real list \<Rightarrow> real list list option \<Rightarrow> (nat \<Rightarrow> line) \<Rightarrow> string \<Rightarrow> real \<Rightarrow>
   string \<Rightarrow> string \<Rightarrow> nat \<Rightarrow> call list" where
  "subplot_calls n t bounds series var hi series_label bounds_label i =
     [Subplot n 1 (i + 1), Draw (series i)] @ bound_calls t i bounds @
     [Ylabel (''$'' @ var @ ''_{'' @ str_int (int i + 1) @ ''}$''), Xlim 0 hi] @
     (if i = 0 then [legend_call t bounds (series 0) series_label bounds_label] else [])"

definition input_series :: "real list list \<Rightarrow> real list \<Rightarrow> nat \<Rightarrow> line" where
  "input_series u t i = Line_step t (u ! 0 ! i # map (\<lambda>k. u ! k ! i) [0..<length u]) ''b''"

definition state_series :: "real list list \<Rightarrow> real list \<Rightarrow> nat \<Rightarrow> line" where
  "state_series x t i = Line_plot t (map (\<lambda>k. x ! k ! i) [0..<length x]) ''b''"

definition time_axis :: "nat \<Rightarrow> real \<Rightarrow> real list" where
  "time_axis n h = map (\<lambda>k. real k * h) [0..<n]"

definition outputs :: "ndarray2 \<Rightarrow> real list list \<Rightarrow> real list list" where
  "outputs C x = map (\<lambda>x_t. projr (dot C x_t)) x"

section \<open>Further readings of a run\<close>

text \<open>The number of entries of a legend: the backend pairs the handles with the labels.\<close>

fun entries :: "call \<Rightarrow> nat" where
  "entries (Legend handles labels _) = min (length handles) (length labels)"
| "entries _ = 0"

text \<open>The exception that ended a run, if any.\<close>

definition outcome :: "'a run \<Rightarrow> error option" where
  "outcome r = (case snd r of Inl e \<Rightarrow> Some e | Inr _ \<Rightarrow> None)"

text \<open>Bounds that fit a trajectory of \<open>n\<close> components: every bound has a value for each
  component, and the list of bounds is not empty when there is a component to plot.\<close>

definition bounds_fit :: "real list list option \<Rightarrow> nat \<Rightarrow> bool" where
  "bounds_fit bounds n =
     (case bounds of
        None \<Rightarrow> True
      | Some bs \<Rightarrow> (n = 0 \<or> bs \<noteq> []) \<and> (\<forall>bound\<in>set bs. n \<le> length bound))"

section \<open>Example inputs\<close>








definition example_C :: ndarray2 where
  "example_C = \<lparr>shape0 = 1, shape1 = 2, flat = [1, 1]\<rparr>"

section \<open>Lemmas\<close>

subsection \<open>Indexing, comprehensions and the time axis\<close>

lemma getitem_nat:
  "getitem xs (int k) = (if k < length xs then Inr (xs ! k) else Inl IndexError)"
  by (simp add: getitem_def zmod_int flip: of_nat_mod)

lemma getitem_0: "getitem xs 0 = (if 0 < length xs then Inr (xs ! 0) else Inl IndexError)"
  using getitem_nat [of xs 0] by simp

lemma getitem_1: "getitem xs 1 = (if 1 < length xs then Inr (xs ! 1) else Inl IndexError)"
  using getitem_nat [of xs 1] by simp

lemma getitem_error: "getitem xs i = Inl e \<Longrightarrow> e = IndexError"
  by (simp add: getitem_def split: if_splits)

lemma bind_exn_Inl:
  "bind_exn r f = Inl e \<longleftrightarrow> r = Inl e \<or> (\<exists>v. r = Inr v \<and> f v = Inl e)"
  by (cases r) (simp_all add: bind_exn_def)

lemma bind_exn_Inr:
  "bind_exn r f = Inr w \<longleftrightarrow> (\<exists>v. r = Inr v \<and> f v = Inr w)"
  by (cases r) (simp_all add: bind_exn_def)


lemma list_comp_Inr:
  "list_comp f ks = Inr vs \<Longrightarrow> length vs = length ks \<and> (\<forall>j<length ks. f (ks ! j) = Inr (vs ! j))"
proof (induction ks arbitrary: vs)
  case Nil
  then show ?case by simp
next
  case (Cons k ks)
  then show ?case
    by (auto split: sum.splits simp: nth_Cons split: nat.splits)
qed

lemma list_comp_map: "(\<And>k. k \<in> set ks \<Longrightarrow> f k = Inr (g k)) \<Longrightarrow> list_comp f ks = Inr (map g ks)"
  by (induction ks) simp_all

lemma item_Inr:
  "bind_exn (getitem x (int k)) (\<lambda>x_k. getitem x_k (int i)) = Inr v \<Longrightarrow>
     k < length x \<and> i < length (x ! k) \<and> v = x ! k ! i"
  by (cases "k < length x"; cases "i < length (x ! k)") (simp_all add: bind_exn_def getitem_nat)

lemma column_Inr:
  assumes "column x i n = Inr ys"
  shows "ys = map (\<lambda>k. x ! k ! i) [0..<nat n]"
proof -
  from assms
  have lc: "list_comp (\<lambda>k. bind_exn (getitem x (int k)) (\<lambda>x_k. getitem x_k (int i))) [0..<nat n] = Inr ys"
    by (simp add: column_def range_py_def)
  note R = list_comp_Inr [OF lc]
  have len: "length ys = nat n"
    using R by simp
  have "ys ! j = x ! j ! i" if "j < nat n" for j
  proof -
    from R that
    have "bind_exn (getitem x (int j)) (\<lambda>x_k. getitem x_k (int i)) = Inr (ys ! j)"
      by simp
    from item_Inr [OF this] show ?thesis by simp
  qed
  with len show ?thesis by (intro nth_equalityI) simp_all
qed

lemma column_ok:
  assumes "\<And>k. k < nat n \<Longrightarrow> k < length x \<and> i < length (x ! k)"
  shows "column x i n = Inr (map (\<lambda>k. x ! k ! i) [0..<nat n])"
  unfolding column_def range_py_def
  by (rule list_comp_map) (use assms in \<open>auto simp: bind_exn_def getitem_nat\<close>)


lemma linspace_time:
  "linspace 0 (real n * h) (int n + 1) = Inr (map (\<lambda>k. real k * h) [0..<Suc n])"
proof (cases "n = 0")
  case True
  then show ?thesis by (simp add: linspace_def)
next
  case False
  have "(map (\<lambda>k. real k * (real n * h / real n)) [0..<Suc n])[n := real n * h]
        = map (\<lambda>k. real k * h) [0..<Suc n]"
    using False by (intro nth_equalityI) (auto simp: nth_list_update nth_append simp del: upt_Suc)
  with False show ?thesis
    by (simp add: linspace_def Let_def nat_add_distrib del: upt_Suc)
qed

lemma linspace_empty: "linspace 0 stop 0 = Inr []"
  by (simp add: linspace_def)

subsection \<open>Sequencing and loops\<close>

lemma snd_pure [simp]: "snd (pure v) = Inr v" and fst_pure [simp]: "fst (pure v) = []"
  by (simp_all add: pure_def)

lemma snd_raise [simp]: "snd (raise e) = Inl e" and fst_raise [simp]: "fst (raise e) = []"
  by (simp_all add: raise_def)

lemma snd_lift [simp]: "snd (lift r) = r" and fst_lift [simp]: "fst (lift r) = []"
  by (simp_all add: lift_def)

lemma snd_emit [simp]: "snd (emit c) = Inr ()" and fst_emit [simp]: "fst (emit c) = [c]"
  by (simp_all add: emit_def)

lemma then_do_Inl:
  "snd (then_do m f) = Inl e \<longleftrightarrow> snd m = Inl e \<or> (\<exists>v. snd m = Inr v \<and> snd (f v) = Inl e)"
  by (cases "snd m") (simp_all add: then_do_def)

lemma then_do_Inr:
  "snd (then_do m f) = Inr w \<longleftrightarrow> (\<exists>v. snd m = Inr v \<and> snd (f v) = Inr w)"
  by (cases "snd m") (simp_all add: then_do_def)

lemma then_do_ok: "snd m = Inr v \<Longrightarrow> then_do m f = (fst m @ fst (f v), snd (f v))"
  by (simp add: then_do_def)

lemma then_do_fail: "snd m = Inl e \<Longrightarrow> then_do m f = (fst m, Inl e)"
  by (simp add: then_do_def)

lemma then_do_lift_Inr [simp]: "then_do (lift (Inr v)) f = f v"
  by (simp add: then_do_def lift_def)

lemma then_do_lift_Inl [simp]: "then_do (lift (Inl e)) f = ([], Inl e)"
  by (simp add: then_do_def lift_def)

lemma then_do_emit [simp]: "then_do (emit c) f = (c # fst (f ()), snd (f ()))"
  by (simp add: then_do_def emit_def)

lemma then_do_pure [simp]: "then_do (pure v) f = f v"
  by (simp add: then_do_def pure_def)

lemma then_do_raise [simp]: "then_do (raise e) f = ([], Inl e)"
  by (simp add: then_do_def raise_def)

lemma for_each_error:
  "snd (for_each is body s) = Inl e \<Longrightarrow> \<exists>i\<in>set is. \<exists>s'. snd (body i s') = Inl e"
  by (induction "is" arbitrary: s) (auto simp: then_do_Inl)

lemma for_each_unit:
  "returns (for_each is body ()) \<Longrightarrow>
     (\<forall>i\<in>set is. returns (body i ())) \<and>
     calls (for_each is body ()) = concat (map (\<lambda>i. calls (body i ())) is)"
  by (induction "is") (auto simp: then_do_Inr then_do_ok)

text \<open>A counted loop that returns has issued the calls of its iterations, one after the other.\<close>

lemma for_each_upt_calls:
  assumes "snd (for_each [k..<n] body s) = Inr r"
    and "\<And>i s' r. k \<le> i \<Longrightarrow> i < n \<Longrightarrow> (i = k \<Longrightarrow> s' = s) \<Longrightarrow> snd (body i s') = Inr r
           \<Longrightarrow> calls (body i s') = blk i"
  shows "calls (for_each [k..<n] body s) = concat (map blk [k..<n])"
  using assms
proof (induction "n - k" arbitrary: k s)
  case 0
  then show ?case by simp
next
  case (Suc d)
  then have kn: "k < n" by simp
  then have eq: "[k..<n] = k # [Suc k..<n]" by (simp add: upt_conv_Cons)
  from Suc.prems(1) obtain s1 where b: "snd (body k s) = Inr s1"
    and rest: "snd (for_each [Suc k..<n] body s1) = Inr r"
    by (auto simp: eq then_do_Inr)
  have first: "calls (body k s) = blk k"
    using Suc.prems(2) [of k s s1] kn b by simp
  have "calls (for_each [Suc k..<n] body s1) = concat (map blk [Suc k..<n])"
  proof (rule Suc.hyps(1))
    show "d = n - Suc k" using Suc.hyps(2) by simp
    show "snd (for_each [Suc k..<n] body s1) = Inr r" by (rule rest)
    show "calls (body i s') = blk i"
      if "Suc k \<le> i" "i < n" "snd (body i s') = Inr r'" for i s' r'
      using Suc.prems(2) [of i s' r'] that by simp
  qed
  with first b show ?case
    by (simp add: eq then_do_ok)
qed

subsection \<open>The subplots of the time-series functions\<close>

lemma bound_step_eq:
  "bound_step t i bound bp =
     (if i < length bound then ([Draw (bound_line t i bound)], Inr (Some (bound_line t i bound)))
      else ([], Inl IndexError))"
  by (simp add: bound_step_def getitem_nat bound_line_def ones_def Let_def pure_def)

lemma for_each_bound_step:
  "snd (for_each bs (bound_step t i) bp) = Inr r \<Longrightarrow>
     calls (for_each bs (bound_step t i) bp) = map (\<lambda>bound. Draw (bound_line t i bound)) bs \<and>
     r = (if bs = [] then bp else Some (bound_line t i (last bs)))"
proof (induction bs arbitrary: bp)
  case Nil
  then show ?case by simp
next
  case (Cons b bs)
  from Cons.prems have ok: "i < length b"
    by (auto simp: then_do_Inr bound_step_eq [of t i b] split: if_splits)
  then have st: "bound_step t i b bp = ([Draw (bound_line t i b)], Inr (Some (bound_line t i b)))"
    by (simp add: bound_step_eq [of t i b])
  with Cons.prems
  have rest: "snd (for_each bs (bound_step t i) (Some (bound_line t i b))) = Inr r"
    by (simp add: then_do_def)
  from Cons.IH [OF rest] st show ?case
    by (simp add: then_do_def)
qed

lemma plot_bounds_Inr:
  "snd (plot_bounds t bounds i bp) = Inr r \<Longrightarrow>
     calls (plot_bounds t bounds i bp) = bound_calls t i bounds \<and>
     r = (case bounds of None \<Rightarrow> bp | Some bs \<Rightarrow> if bs = [] then bp else Some (bound_line t i (last bs)))"
  by (cases bounds) (simp_all add: plot_bounds_def bound_calls_def for_each_bound_step)

lemma make_legend_Inr:
  "returns (make_legend 0 bounds series bp series_label bounds_label) \<Longrightarrow>
     bp = (case bounds of None \<Rightarrow> bp0 | Some bs \<Rightarrow> if bs = [] then None else Some (bound_line t 0 (last bs))) \<Longrightarrow>
     calls (make_legend 0 bounds series bp series_label bounds_label)
       = [legend_call t bounds series series_label bounds_label]"
  by (cases bounds) (auto simp: make_legend_def legend_call_def split: if_splits)

lemma make_legend_Suc [simp]:
  "0 < i \<Longrightarrow> make_legend i bounds series bp series_label bounds_label = pure ()"
  by (simp add: make_legend_def)

lemma input_subplot_calls:
  assumes "snd (input_subplot u h ub nu (int (length u)) t i bp) = Inr r"
    and "i = 0 \<Longrightarrow> bp = None"
  shows "calls (input_subplot u h ub nu (int (length u)) t i bp)
         = subplot_calls nu t ub (input_series u t) ''u'' (real (length u) * h)
             ''Optimal control'' ''Control bounds'' i"
proof -
  let ?N = "int (length u)"
  from assms(1) obtain ys y0 bp' where c: "column u i ?N = Inr ys"
    and g: "getitem ys 0 = Inr y0"
    and pb: "snd (plot_bounds t ub i bp) = Inr bp'"
    and ml: "returns (make_legend i ub (Line_step t (y0 # ys) ''b'') bp'
                ''Optimal control'' ''Control bounds'')"
    by (auto simp: input_subplot_def Let_def then_do_Inr)
  from column_Inr [OF c] have ys: "ys = map (\<lambda>k. u ! k ! i) [0..<length u]"
    by simp
  from g ys have y0: "y0 = u ! 0 ! i"
    by (cases "length u") (simp_all add: getitem_0 upt_conv_Cons del: upt_Suc)
  have line: "Line_step t (y0 # ys) ''b'' = input_series u t i"
    by (simp add: input_series_def ys y0)
  note B = plot_bounds_Inr [OF pb]
  have leg: "calls (make_legend i ub (input_series u t i) bp' ''Optimal control'' ''Control bounds'')
        = (if i = 0 then [legend_call t ub (input_series u t 0) ''Optimal control'' ''Control bounds'']
           else [])"
  proof (cases "i = 0")
    case True
    with assms(2) B have "bp' = (case ub of None \<Rightarrow> None | Some bs \<Rightarrow>
        if bs = [] then None else Some (bound_line t 0 (last bs)))"
      by (simp split: option.splits)
    from make_legend_Inr [OF ml [unfolded line True] this [unfolded True]] True
    show ?thesis by simp
  next
    case False
    then show ?thesis by simp
  qed
  from B have Bc: "calls (plot_bounds t ub i bp) = bound_calls t i ub" by simp
  show ?thesis
    using c g
    by (simp add: input_subplot_def Let_def line then_do_ok [OF pb]
        then_do_ok [OF ml [unfolded line]] leg Bc subplot_calls_def)
qed

lemma state_subplot_calls:
  assumes "snd (state_subplot x h xb nx (int (length x) - 1) t i bp) = Inr r"
    and "i = 0 \<Longrightarrow> bp = None"
  shows "calls (state_subplot x h xb nx (int (length x) - 1) t i bp)
         = subplot_calls nx t xb (state_series x t) ''x'' (real_of_int (int (length x) - 1) * h)
             ''Optimal trajectory'' ''State bounds'' i"
proof -
  let ?N = "int (length x) - 1"
  from assms(1) obtain ys bp' where c: "column x i (?N + 1) = Inr ys"
    and pb: "snd (plot_bounds t xb i bp) = Inr bp'"
    and ml: "returns (make_legend i xb (Line_plot t ys ''b'') bp'
                ''Optimal trajectory'' ''State bounds'')"
    by (auto simp: state_subplot_def Let_def then_do_Inr)
  from column_Inr [OF c] have ys: "ys = map (\<lambda>k. x ! k ! i) [0..<length x]"
    by simp
  have line: "Line_plot t ys ''b'' = state_series x t i"
    by (simp add: state_series_def ys)
  note B = plot_bounds_Inr [OF pb]
  have leg: "calls (make_legend i xb (state_series x t i) bp' ''Optimal trajectory'' ''State bounds'')
        = (if i = 0 then [legend_call t xb (state_series x t 0) ''Optimal trajectory'' ''State bounds'']
           else [])"
  proof (cases "i = 0")
    case True
    with assms(2) B have "bp' = (case xb of None \<Rightarrow> None | Some bs \<Rightarrow>
        if bs = [] then None else Some (bound_line t 0 (last bs)))"
      by (simp split: option.splits)
    from make_legend_Inr [OF ml [unfolded line True] this [unfolded True]] True
    show ?thesis by simp
  next
    case False
    then show ?thesis by simp
  qed
  from B have Bc: "calls (plot_bounds t xb i bp) = bound_calls t i xb" by simp
  show ?thesis
    using c
    by (simp add: state_subplot_def Let_def line then_do_ok [OF pb]
        then_do_ok [OF ml [unfolded line]] leg Bc subplot_calls_def)
qed

lemma output_subplot_calls:
  assumes "snd (output_subplot x h xb nx (int (length x) - 1) t i bp) = Inr r"
    and "i = 0 \<Longrightarrow> bp = None"
  shows "calls (output_subplot x h xb nx (int (length x) - 1) t i bp)
         = subplot_calls nx t xb (state_series x t) ''y'' (real_of_int (int (length x) - 1) * h)
             ''Optimal trajectory'' ''Output bounds'' i"
proof -
  let ?N = "int (length x) - 1"
  from assms(1) obtain ys bp' where c: "column x i (?N + 1) = Inr ys"
    and pb: "snd (plot_bounds t xb i bp) = Inr bp'"
    and ml: "returns (make_legend i xb (Line_plot t ys ''b'') bp'
                ''Optimal trajectory'' ''Output bounds'')"
    by (auto simp: output_subplot_def Let_def then_do_Inr)
  from column_Inr [OF c] have ys: "ys = map (\<lambda>k. x ! k ! i) [0..<length x]"
    by simp
  have line: "Line_plot t ys ''b'' = state_series x t i"
    by (simp add: state_series_def ys)
  note B = plot_bounds_Inr [OF pb]
  have leg: "calls (make_legend i xb (state_series x t i) bp' ''Optimal trajectory'' ''Output bounds'')
        = (if i = 0 then [legend_call t xb (state_series x t 0) ''Optimal trajectory'' ''Output bounds'']
           else [])"
  proof (cases "i = 0")
    case True
    with assms(2) B have "bp' = (case xb of None \<Rightarrow> None | Some bs \<Rightarrow>
        if bs = [] then None else Some (bound_line t 0 (last bs)))"
      by (simp split: option.splits)
    from make_legend_Inr [OF ml [unfolded line True] this [unfolded True]] True
    show ?thesis by simp
  next
    case False
    then show ?thesis by simp
  qed
  from B have Bc: "calls (plot_bounds t xb i bp) = bound_calls t i xb" by simp
  show ?thesis
    using c
    by (simp add: output_subplot_def Let_def line then_do_ok [OF pb]
        then_do_ok [OF ml [unfolded line]] leg Bc subplot_calls_def)
qed

lemma range_py_int [simp]: "range_py (int n) = [0..<n]"
  by (simp add: range_py_def)

lemma plot_input_sequence_calls:
  assumes "returns (plot_input_sequence u h ub)"
  shows "calls (plot_input_sequence u h ub)
         = concat (map (subplot_calls (length (u ! 0)) (time_axis (Suc (length u)) h) ub
                          (input_series u (time_axis (Suc (length u)) h)) ''u''
                          (real (length u) * h) ''Optimal control'' ''Control bounds'')
                     [0..<length (u ! 0)]) @ [Xlabel ''$t$'']"
    and "u \<noteq> []"
proof -
  let ?t = "time_axis (Suc (length u)) h"
  let ?body = "input_subplot u h ub (length (u ! 0)) (int (length u)) ?t"
  from assms show ne: "u \<noteq> []"
    by (auto simp: plot_input_sequence_def getitem_0)
  then have g: "getitem u 0 = Inr (u ! 0)"
    by (simp add: getitem_0)
  have unf: "plot_input_sequence u h ub
      = then_do (for_each [0..<length (u ! 0)] ?body None) (\<lambda>_. emit (Xlabel ''$t$''))"
    by (simp add: plot_input_sequence_def g Let_def linspace_time time_axis_def del: upt_Suc)
  from assms obtain r where loop: "snd (for_each [0..<length (u ! 0)] ?body None) = Inr r"
    by (auto simp: unf then_do_Inr)
  have "calls (for_each [0..<length (u ! 0)] ?body None)
        = concat (map (subplot_calls (length (u ! 0)) ?t ub (input_series u ?t) ''u''
                          (real (length u) * h) ''Optimal control'' ''Control bounds'')
                     [0..<length (u ! 0)])"
    by (rule for_each_upt_calls [OF loop]) (rule input_subplot_calls, assumption, simp)
  then show "calls (plot_input_sequence u h ub)
         = concat (map (subplot_calls (length (u ! 0)) ?t ub (input_series u ?t) ''u''
                          (real (length u) * h) ''Optimal control'' ''Control bounds'')
                     [0..<length (u ! 0)]) @ [Xlabel ''$t$'']"
    by (simp add: unf then_do_ok [OF loop])
qed

lemma linspace_axis: "linspace 0 ((real m - 1) * h) (int m) = Inr (time_axis m h)"
proof (cases m)
  case 0
  then show ?thesis by (simp add: linspace_def time_axis_def)
next
  case (Suc n)
  with linspace_time [of n h] show ?thesis
    by (simp add: time_axis_def add.commute del: upt_Suc)
qed

lemma plot_state_trajectory_calls:
  assumes "returns (plot_state_trajectory x h xb)"
  shows "calls (plot_state_trajectory x h xb)
         = concat (map (subplot_calls (length (x ! 0)) (time_axis (length x) h) xb
                          (state_series x (time_axis (length x) h)) ''x''
                          (real_of_int (int (length x) - 1) * h) ''Optimal trajectory'' ''State bounds'')
                     [0..<length (x ! 0)]) @ [Xlabel ''$t$'']"
    and "x \<noteq> []"
proof -
  let ?t = "time_axis (length x) h"
  let ?body = "state_subplot x h xb (length (x ! 0)) (int (length x) - 1) ?t"
  from assms show ne: "x \<noteq> []"
    by (auto simp: plot_state_trajectory_def getitem_0)
  then have g: "getitem x 0 = Inr (x ! 0)"
    by (simp add: getitem_0)
  have unf: "plot_state_trajectory x h xb
      = then_do (for_each [0..<length (x ! 0)] ?body None) (\<lambda>_. emit (Xlabel ''$t$''))"
    by (simp add: plot_state_trajectory_def g Let_def linspace_axis)
  from assms obtain r where loop: "snd (for_each [0..<length (x ! 0)] ?body None) = Inr r"
    by (auto simp: unf then_do_Inr)
  have "calls (for_each [0..<length (x ! 0)] ?body None)
        = concat (map (subplot_calls (length (x ! 0)) ?t xb (state_series x ?t) ''x''
                          (real_of_int (int (length x) - 1) * h) ''Optimal trajectory'' ''State bounds'')
                     [0..<length (x ! 0)])"
    by (rule for_each_upt_calls [OF loop]) (rule state_subplot_calls, assumption, simp)
  then show "calls (plot_state_trajectory x h xb)
         = concat (map (subplot_calls (length (x ! 0)) ?t xb (state_series x ?t) ''x''
                          (real_of_int (int (length x) - 1) * h) ''Optimal trajectory'' ''State bounds'')
                     [0..<length (x ! 0)]) @ [Xlabel ''$t$'']"
    by (simp add: unf then_do_ok [OF loop])
qed

lemma list_comp_dot:
  assumes "list_comp (dot C) x = Inr y"
  shows "y = outputs C x" and "\<forall>k<length x. dot C (x ! k) = Inr (outputs C x ! k)"
proof -
  note R = list_comp_Inr [OF assms]
  have "y ! k = projr (dot C (x ! k))" if "k < length x" for k
    using R that by simp
  with R show y: "y = outputs C x"
    by (intro nth_equalityI) (simp_all add: outputs_def)
  from R show "\<forall>k<length x. dot C (x ! k) = Inr (outputs C x ! k)"
    unfolding y by simp
qed

lemma plot_output_trajectory_calls:
  assumes "returns (plot_output_trajectory C x h yb)"
  shows "calls (plot_output_trajectory C x h yb)
         = concat (map (subplot_calls (shape0 C) (time_axis (length x) h) yb
                          (state_series (outputs C x) (time_axis (length x) h)) ''y''
                          (real_of_int (int (length x) - 1) * h) ''Optimal trajectory'' ''Output bounds'')
                     [0..<shape0 C]) @ [Xlabel ''$t$'']"
    and "\<forall>k<length x. dot C (x ! k) = Inr (outputs C x ! k)"
proof -
  let ?t = "time_axis (length x) h"
  let ?y = "outputs C x"
  let ?body = "output_subplot ?y h yb (shape0 C) (int (length x) - 1) ?t"
  from assms obtain y where lc: "list_comp (dot C) x = Inr y"
    by (auto simp: plot_output_trajectory_def then_do_Inr)
  note Y = list_comp_dot [OF lc]
  from Y(2) show "\<forall>k<length x. dot C (x ! k) = Inr (outputs C x ! k)" .
  have len: "length ?y = length x" by (simp add: outputs_def)
  have unf: "plot_output_trajectory C x h yb
      = then_do (for_each [0..<shape0 C] ?body None) (\<lambda>_. emit (Xlabel ''$t$''))"
    by (simp add: plot_output_trajectory_def lc Y(1) Let_def linspace_axis len)
  from assms obtain r where loop: "snd (for_each [0..<shape0 C] ?body None) = Inr r"
    by (auto simp: unf then_do_Inr)
  have "calls (for_each [0..<shape0 C] ?body None)
        = concat (map (subplot_calls (shape0 C) ?t yb (state_series ?y ?t) ''y''
                          (real_of_int (int (length x) - 1) * h) ''Optimal trajectory'' ''Output bounds'')
                     [0..<shape0 C])"
    by (rule for_each_upt_calls [OF loop])
      (rule output_subplot_calls [where x = "outputs C x", unfolded len], assumption, simp)
  then show "calls (plot_output_trajectory C x h yb)
         = concat (map (subplot_calls (shape0 C) ?t yb (state_series ?y ?t) ''y''
                          (real_of_int (int (length x) - 1) * h) ''Optimal trajectory'' ''Output bounds'')
                     [0..<shape0 C]) @ [Xlabel ''$t$'']"
    by (simp add: unf then_do_ok [OF loop] len)
qed

subsection \<open>Reading the subplots of a log made of blocks\<close>

lemma on_axes_no_subplot:
  "\<forall>c\<in>set cs. \<not> is_subplot c \<Longrightarrow> on_axes cur (cs @ later) = map (Pair cur) cs @ on_axes cur later"
proof (induction cs)
  case Nil
  then show ?case by simp
next
  case (Cons c cs)
  then show ?case by (cases c) simp_all
qed

lemma bound_calls_no_subplot: "\<forall>c\<in>set (bound_calls t i b). \<not> is_subplot c"
  by (cases b) (auto simp: bound_calls_def)

lemma legend_call_cases:
  "\<exists>hs ls. legend_call t b s sl bl = Legend hs ls 1 \<and> length hs = (if b = None then 1 else 2)
     \<and> length ls = length hs"
  by (cases b) (simp_all add: legend_call_def)

lemma subplot_calls_Cons:
  "\<exists>rest. subplot_calls n t b s var hi sl bl i = Subplot n 1 (i + 1) # rest
     \<and> (\<forall>c\<in>set rest. \<not> is_subplot c)"
  using legend_call_cases [of t b "s 0" sl bl] bound_calls_no_subplot [of t i b]
  by (auto simp: subplot_calls_def)

lemma on_axes_subplot_calls:
  "on_axes cur (subplot_calls n t b s var hi sl bl i @ later)
     = map (Pair (i + 1)) (subplot_calls n t b s var hi sl bl i) @ on_axes (i + 1) later"
proof -
  from subplot_calls_Cons [of n t b s var hi sl bl i]
  obtain rest where eq: "subplot_calls n t b s var hi sl bl i = Subplot n 1 (i + 1) # rest"
    and ns: "\<forall>c\<in>set rest. \<not> is_subplot c"
    by blast
  show ?thesis
    by (simp add: eq on_axes_no_subplot [OF ns])
qed

lemma on_axes_blocks:
  "on_axes cur (concat (map (subplot_calls n t b s var hi sl bl) is) @ later)
     = concat (map (\<lambda>i. map (Pair (i + 1)) (subplot_calls n t b s var hi sl bl i)) is)
       @ on_axes (if is = [] then cur else last is + 1) later"
proof (induction "is" arbitrary: cur)
  case Nil
  then show ?case by simp
next
  case (Cons i "is")
  show ?case
    by (simp add: on_axes_subplot_calls Cons.IH del: on_axes.simps)
qed

lemma filter_tagged_blocks:
  "distinct is \<Longrightarrow>
   map snd (filter (\<lambda>p. fst p = Suc i) (concat (map (\<lambda>j. map (Pair (Suc j)) (blk j)) is)))
     = (if i \<in> set is then blk i else [])"
  by (induction "is") (auto simp: filter_map comp_def filter_empty_conv)

lemma on_subplot_blocks:
  assumes "i < m" and "\<forall>c\<in>set later. \<not> is_subplot c"
  shows "on_subplot (Suc i) (concat (map (subplot_calls n t b s var hi sl bl) [0..<m]) @ later)
     = subplot_calls n t b s var hi sl bl i @ (if Suc i = m then later else [])"
proof -
  from assms(1) have last: "last [0..<m] + 1 = m" "[0..<m] \<noteq> []"
    by (cases m; simp)+
  from on_axes_no_subplot [OF assms(2), of m "[]"]
  have later: "on_axes m later = map (Pair m) later" by simp
  show ?thesis
    using assms(1) last
    by (simp add: on_subplot_def on_axes_blocks later filter_tagged_blocks filter_map comp_def
        del: upt_Suc)
qed

subsection \<open>The state-space trajectory\<close>

lemma component_error: "component x dims t d = Inl e \<Longrightarrow> e = IndexError"
  by (auto simp: component_def bind_exn_Inl dest: getitem_error)

lemma segment_error: "segment x dims t = Inl e \<Longrightarrow> e = IndexError"
  by (auto simp: segment_def bind_exn_Inl dest: component_error)

lemma trajectory_step_error:
  "snd (trajectory_step x dims label kw t u) = Inl e \<Longrightarrow> e = IndexError"
  by (auto simp: trajectory_step_def then_do_Inl split: if_splits prod.splits dest: segment_error)

lemma text_step_error: "snd (text_step x text t u) = Inl e \<Longrightarrow> e = IndexError"
  by (auto simp: text_step_def then_do_Inl split: if_splits dest: getitem_error)

lemma calls_then_do:
  "c \<in> set (calls (then_do m f)) \<Longrightarrow>
     c \<in> set (calls m) \<or> (\<exists>v. snd m = Inr v \<and> c \<in> set (calls (f v)))"
  by (cases "snd m") (auto simp: then_do_def)

lemma calls_for_each:
  "c \<in> set (calls (for_each is body s)) \<Longrightarrow> \<exists>i\<in>set is. \<exists>s'. c \<in> set (calls (body i s'))"
  by (induction "is" arbitrary: s) (auto dest!: calls_then_do)

lemma trajectory_step_plots:
  "c \<in> set (calls (trajectory_step x dims label kw t u)) \<Longrightarrow>
     \<not> is_text c \<and> \<not> is_xlabel c \<and> \<not> is_ylabel c"
  by (auto simp: trajectory_step_def dest!: calls_then_do split: if_splits prod.splits)

lemma trajectory_loop_plots:
  "c \<in> set (calls (for_each is (trajectory_step x dims label kw) s)) \<Longrightarrow>
     \<not> is_text c \<and> \<not> is_xlabel c \<and> \<not> is_ylabel c"
  by (blast dest: calls_for_each trajectory_step_plots)

lemma text_step_calls:
  "returns (text_step x True t ()) \<Longrightarrow>
     calls (text_step x True t ()) = [Text (x ! t ! 0) (x ! t ! 1) (''$x('' @ str_int (int t) @ '')$'')]"
  by (auto simp: text_step_def getitem_nat getitem_0 getitem_1 split: if_splits)

lemma text_loop_calls:
  assumes "returns (for_each is (text_step x text) ())"
  shows "calls (for_each is (text_step x text) ())
     = (if text then map (\<lambda>t. Text (x ! t ! 0) (x ! t ! 1) (''$x('' @ str_int (int t) @ '')$'')) is
        else [])"
proof (cases "text")
  case True
  from for_each_unit [OF assms] True show ?thesis
    by (simp add: text_step_calls cong: map_cong) 
next
  case False
  from for_each_unit [OF assms] False show ?thesis
    by (simp add: text_step_def)
qed

lemma plot_state_space_trajectory_calls:
  assumes "returns (plot_state_space_trajectory x dims text label kw)"
  shows "\<exists>plots a b.
     calls (plot_state_space_trajectory x dims text label kw)
       = plots
         @ (if text then map (\<lambda>t. Text (x ! t ! 0) (x ! t ! 1) (''$x('' @ str_int (int t) @ '')$''))
                           [0..<length x]
            else [])
         @ [Scatter a b [(''color'', ''w''), (''edgecolor'', ''k''), (''zorder'', ''3'')],
            Xlabel (''$x_{'' @ str_int (dims ! 0 + 1) @ ''}$''),
            Ylabel (''$x_{'' @ str_int (dims ! 1 + 1) @ ''}$'')]
     \<and> (\<forall>c\<in>set plots. \<not> is_text c \<and> \<not> is_xlabel c \<and> \<not> is_ylabel c)"
proof -
  let ?loop1 = "for_each (range_py (int (length x) - 1)) (trajectory_step x dims label kw) ()"
  let ?loop2 = "for_each [0..<length x] (text_step x text) ()"
  from assms have len: "length dims = 2"
    by (auto simp: plot_state_space_trajectory_def split: if_splits)
  then have d: "getitem dims 0 = Inr (dims ! 0)" "getitem dims 1 = Inr (dims ! 1)"
    by (simp_all add: getitem_0 getitem_1)
  from assms len obtain a b where l1: "returns ?loop1" and l2: "returns ?loop2"
    and a: "component x dims 0 0 = Inr a" and b: "component x dims 0 1 = Inr b"
    by (auto simp: plot_state_space_trajectory_def then_do_Inr)
  have "calls (plot_state_space_trajectory x dims text label kw)
       = calls ?loop1 @ calls ?loop2
         @ [Scatter a b [(''color'', ''w''), (''edgecolor'', ''k''), (''zorder'', ''3'')],
            Xlabel (''$x_{'' @ str_int (dims ! 0 + 1) @ ''}$''),
            Ylabel (''$x_{'' @ str_int (dims ! 1 + 1) @ ''}$'')]"
    using len by (simp add: plot_state_space_trajectory_def then_do_ok [OF l1] then_do_ok [OF l2] a b d)
  with text_loop_calls [OF l2] trajectory_loop_plots [of _ _ x dims label kw "()"]
  show ?thesis by (intro exI [of _ "calls ?loop1"] exI [of _ a] exI [of _ b]) auto
qed

lemma filter_bound_calls [simp]:
  "filter is_xlim (bound_calls t i b) = []"
  "filter is_ylabel (bound_calls t i b) = []"
  "filter is_xlabel (bound_calls t i b) = []"
  "filter is_legend (bound_calls t i b) = []"
  "filter is_subplot (bound_calls t i b) = []"
  "filter is_series (bound_calls t i b) = []"
  by (cases b; simp add: bound_calls_def bound_line_def filter_empty_conv)+

lemma legend_call_is [simp]:
  "\<not> is_xlim (legend_call t b s sl bl)"
  "\<not> is_ylabel (legend_call t b s sl bl)"
  "\<not> is_xlabel (legend_call t b s sl bl)"
  "is_legend (legend_call t b s sl bl)"
  "\<not> is_subplot (legend_call t b s sl bl)"
  "\<not> is_series (legend_call t b s sl bl)"
  by (cases b; simp add: legend_call_def)+

lemma filter_subplot_calls:
  "filter is_xlim (subplot_calls n t b s var hi sl bl i) = [Xlim 0 hi]"
  "filter is_ylabel (subplot_calls n t b s var hi sl bl i)
     = [Ylabel (''$'' @ var @ ''_{'' @ str_int (int i + 1) @ ''}$'')]"
  "filter is_xlabel (subplot_calls n t b s var hi sl bl i) = []"
  "filter is_legend (subplot_calls n t b s var hi sl bl i)
     = (if i = 0 then [legend_call t b (s 0) sl bl] else [])"
  "filter is_subplot (subplot_calls n t b s var hi sl bl i) = [Subplot n 1 (i + 1)]"
  "is_series (Draw (s i)) \<Longrightarrow> filter is_series (subplot_calls n t b s var hi sl bl i) = [Draw (s i)]"
  by (simp_all add: subplot_calls_def)

lemma concat_singletons: "concat (map (\<lambda>i. [f i]) xs) = map f xs"
  by (induction xs) simp_all

lemma concat_first_only: "concat (map (\<lambda>i. if i = 0 then [c] else []) [0..<m]) = (if 0 < m then [c] else [])"
  by (induction m) simp_all

lemma is_series_input [simp]: "is_series (Draw (input_series u t i))"
  by (simp add: input_series_def)

lemma is_series_state [simp]: "is_series (Draw (state_series x t i))"
  by (simp add: state_series_def)

subsection \<open>What a log made of subplot blocks and a final xlabel shows\<close>

lemma blocks_view:
  fixes n t b s var hi sl bl m
  defines "cs \<equiv> concat (map (subplot_calls n t b s var hi sl bl) [0..<m]) @ [Xlabel ''$t$'']"
  shows "filter is_subplot cs = map (\<lambda>i. Subplot n 1 (i + 1)) [0..<m]"
    and "filter is_xlabel cs = [Xlabel ''$t$'']"
    and "last cs = Xlabel ''$t$''"
    and "filter is_legend cs = (if 0 < m then [legend_call t b (s 0) sl bl] else [])"
    and "i < m \<Longrightarrow> filter is_xlim (on_subplot (Suc i) cs) = [Xlim 0 hi]"
    and "i < m \<Longrightarrow> filter is_ylabel (on_subplot (Suc i) cs)
           = [Ylabel (''$'' @ var @ ''_{'' @ str_int (int i + 1) @ ''}$'')]"
    and "i < m \<Longrightarrow> is_series (Draw (s i)) \<Longrightarrow> filter is_series (on_subplot (Suc i) cs) = [Draw (s i)]"
    and "0 < m \<Longrightarrow> filter is_legend (on_subplot (Suc 0) cs) = [legend_call t b (s 0) sl bl]"
proof -
  show "filter is_subplot cs = map (\<lambda>i. Subplot n 1 (i + 1)) [0..<m]"
    unfolding cs_def
    by (simp add: filter_concat comp_def filter_subplot_calls concat_singletons del: upt_Suc)
  show "filter is_xlabel cs = [Xlabel ''$t$'']"
    unfolding cs_def
    by (simp add: filter_concat comp_def filter_subplot_calls del: upt_Suc)
  show "last cs = Xlabel ''$t$''"
    unfolding cs_def by simp
  show "filter is_legend cs = (if 0 < m then [legend_call t b (s 0) sl bl] else [])"
    unfolding cs_def
    by (simp add: filter_concat comp_def filter_subplot_calls concat_first_only del: upt_Suc)
  have ns: "\<forall>c\<in>set [Xlabel ''$t$'']. \<not> is_subplot c" by simp
  note V = on_subplot_blocks [OF _ ns, of _ m n t b s var hi sl bl, folded cs_def]
  show "filter is_xlim (on_subplot (Suc i) cs) = [Xlim 0 hi]" if "i < m"
    by (simp add: V [OF that] filter_subplot_calls)
  show "filter is_ylabel (on_subplot (Suc i) cs)
           = [Ylabel (''$'' @ var @ ''_{'' @ str_int (int i + 1) @ ''}$'')]" if "i < m"
    by (simp add: V [OF that] filter_subplot_calls)
  show "filter is_series (on_subplot (Suc i) cs) = [Draw (s i)]" if "i < m" "is_series (Draw (s i))"
    by (simp add: V [OF that(1)] filter_subplot_calls that(2))
  show "filter is_legend (on_subplot (Suc 0) cs) = [legend_call t b (s 0) sl bl]" if "0 < m"
    by (simp add: V [OF that] filter_subplot_calls)
qed

subsection \<open>Legends on every run\<close>

lemma entries_legend_call [simp]:
  "entries (legend_call t b s sl bl) = (if b = None then 1 else 2)"
  by (cases b) (simp_all add: legend_call_def)

lemma then_do_all:
  assumes "\<forall>c\<in>set (calls m). P c"
    and "\<And>v. snd m = Inr v \<Longrightarrow> \<forall>c\<in>set (calls (f v)). P c"
  shows "\<forall>c\<in>set (calls (then_do m f)). P c"
  using assms by (cases "snd m") (auto simp: then_do_def)

lemma for_each_all:
  assumes "\<And>i s. \<forall>c\<in>set (calls (body i s)). P c"
  shows "\<forall>c\<in>set (calls (for_each is body s)). P c"
proof (induction "is" arbitrary: s)
  case Nil
  show ?case by simp
next
  case (Cons i "is")
  show ?case
    unfolding for_each.simps by (rule then_do_all) (use assms Cons.IH in blast)+
qed

lemma plot_bounds_no_legend: "\<forall>c\<in>set (calls (plot_bounds t b i bp)). \<not> is_legend c"
proof (cases b)
  case None
  then show ?thesis by (simp add: plot_bounds_def)
next
  case (Some bs)
  have "\<forall>c\<in>set (calls (bound_step t i bound s)). \<not> is_legend c" for bound s
    by (simp add: bound_step_eq)
  then show ?thesis
    unfolding plot_bounds_def Some option.case by (rule for_each_all)
qed

lemma make_legend_entries:
  "\<forall>c\<in>set (calls (make_legend i b s bp sl bl)). entries c = (if b = None then 1 else 2)"
  by (cases b; cases bp) (simp_all add: make_legend_def)

lemma input_subplot_legends:
  "\<forall>c\<in>set (calls (input_subplot u h b nu N t i bp)).
     is_legend c \<longrightarrow> entries c = (if b = None then 1 else 2)"
  unfolding input_subplot_def Let_def
  by (intro then_do_all) (use plot_bounds_no_legend make_legend_entries in simp_all)

lemma state_subplot_legends:
  "\<forall>c\<in>set (calls (state_subplot x h b nx N t i bp)).
     is_legend c \<longrightarrow> entries c = (if b = None then 1 else 2)"
  unfolding state_subplot_def Let_def
  by (intro then_do_all) (use plot_bounds_no_legend make_legend_entries in simp_all)

lemma output_subplot_legends:
  "\<forall>c\<in>set (calls (output_subplot y h b ny N t i bp)).
     is_legend c \<longrightarrow> entries c = (if b = None then 1 else 2)"
  unfolding output_subplot_def Let_def
  by (intro then_do_all) (use plot_bounds_no_legend make_legend_entries in simp_all)

lemma plot_input_sequence_legends:
  "\<forall>c\<in>set (calls (plot_input_sequence u h b)).
     is_legend c \<longrightarrow> entries c = (if b = None then 1 else 2)"
  unfolding plot_input_sequence_def Let_def
  by (intro then_do_all for_each_all input_subplot_legends) simp_all

lemma plot_state_trajectory_legends:
  "\<forall>c\<in>set (calls (plot_state_trajectory x h b)).
     is_legend c \<longrightarrow> entries c = (if b = None then 1 else 2)"
  unfolding plot_state_trajectory_def Let_def
  by (intro then_do_all for_each_all state_subplot_legends) simp_all

lemma plot_output_trajectory_legends:
  "\<forall>c\<in>set (calls (plot_output_trajectory C x h b)).
     is_legend c \<longrightarrow> entries c = (if b = None then 1 else 2)"
  unfolding plot_output_trajectory_def Let_def
  by (intro then_do_all for_each_all output_subplot_legends) simp_all

subsection \<open>Empty bounds\<close>

lemma plot_bounds_empty [simp]: "plot_bounds t (Some []) i bp = pure bp"
  by (simp add: plot_bounds_def)

lemma make_legend_unbound [simp]:
  "make_legend 0 (Some bs) s None sl bl = raise UnboundLocalError"
  by (simp add: make_legend_def)

lemma column_0_ok:
  assumes "\<forall>v\<in>set x. v \<noteq> []"
  shows "column x 0 (int (length x)) = Inr (map (\<lambda>k. x ! k ! 0) [0..<length x])"
  using column_ok [of "int (length x)" x 0] assms by simp

lemma for_each_first_fails:
  "0 < n \<Longrightarrow> snd (body 0 s) = Inl e \<Longrightarrow> for_each [0..<n] body s = (calls (body 0 s), Inl e)"
  by (simp add: upt_conv_Cons then_do_fail)

lemma input_empty_bounds:
  assumes "u \<noteq> []" and "\<forall>v\<in>set u. v \<noteq> []"
  shows "raised (plot_input_sequence u h (Some [])) UnboundLocalError"
    and "filter is_legend (calls (plot_input_sequence u h (Some []))) = []"
proof -
  let ?t = "time_axis (Suc (length u)) h"
  let ?body = "input_subplot u h (Some []) (length (u ! 0)) (int (length u)) ?t"
  from assms have g: "getitem u 0 = Inr (u ! 0)" and nu: "0 < length (u ! 0)"
    by (simp_all add: getitem_0)
  have unf: "plot_input_sequence u h (Some [])
      = then_do (for_each [0..<length (u ! 0)] ?body None) (\<lambda>_. emit (Xlabel ''$t$''))"
    by (simp add: plot_input_sequence_def g Let_def linspace_time time_axis_def del: upt_Suc)
  from assms(1) have g0: "getitem (map (\<lambda>k. u ! k ! 0) [0..<length u]) 0 = Inr (u ! 0 ! 0)"
    by (cases "length u") (simp_all add: getitem_0 upt_conv_Cons del: upt_Suc)
  have b: "?body 0 None = ([Subplot (length (u ! 0)) 1 1,
        Draw (Line_step ?t (u ! 0 ! 0 # map (\<lambda>k. u ! k ! 0) [0..<length u]) ''b''),
        Ylabel (''$u_{'' @ str_int 1 @ ''}$''), Xlim 0 (real (length u) * h)], Inl UnboundLocalError)"
    by (simp add: input_subplot_def column_0_ok [OF assms(2)] g0 Let_def)
  have loop: "for_each [0..<length (u ! 0)] ?body None = (calls (?body 0 None), Inl UnboundLocalError)"
    by (rule for_each_first_fails [OF nu]) (simp add: b)
  show "raised (plot_input_sequence u h (Some [])) UnboundLocalError"
    by (simp add: unf loop then_do_def)
  show "filter is_legend (calls (plot_input_sequence u h (Some []))) = []"
    by (simp add: unf loop then_do_def b)
qed

lemma state_empty_bounds:
  assumes "x \<noteq> []" and "\<forall>v\<in>set x. v \<noteq> []"
  shows "raised (plot_state_trajectory x h (Some [])) UnboundLocalError"
    and "filter is_legend (calls (plot_state_trajectory x h (Some []))) = []"
proof -
  let ?t = "time_axis (length x) h"
  let ?body = "state_subplot x h (Some []) (length (x ! 0)) (int (length x) - 1) ?t"
  from assms have g: "getitem x 0 = Inr (x ! 0)" and nx: "0 < length (x ! 0)"
    by (simp_all add: getitem_0)
  have unf: "plot_state_trajectory x h (Some [])
      = then_do (for_each [0..<length (x ! 0)] ?body None) (\<lambda>_. emit (Xlabel ''$t$''))"
    by (simp add: plot_state_trajectory_def g Let_def linspace_axis)
  have b: "?body 0 None = ([Subplot (length (x ! 0)) 1 1,
        Draw (Line_plot ?t (map (\<lambda>k. x ! k ! 0) [0..<length x]) ''b''),
        Ylabel (''$x_{'' @ str_int 1 @ ''}$''), Xlim 0 ((real (length x) - 1) * h)], Inl UnboundLocalError)"
    by (simp add: state_subplot_def column_0_ok [OF assms(2)] Let_def)
  have loop: "for_each [0..<length (x ! 0)] ?body None = (calls (?body 0 None), Inl UnboundLocalError)"
    by (rule for_each_first_fails [OF nx]) (simp add: b)
  show "raised (plot_state_trajectory x h (Some [])) UnboundLocalError"
    by (simp add: unf loop then_do_def)
  show "filter is_legend (calls (plot_state_trajectory x h (Some []))) = []"
    by (simp add: unf loop then_do_def b)
qed

lemma list_comp_dot_ok:
  assumes "\<forall>v\<in>set x. length v = shape1 C"
  shows "list_comp (dot C) x = Inr (outputs C x)"
    and "\<forall>y\<in>set (outputs C x). length y = shape0 C"
proof -
  have "list_comp (dot C) x = Inr (map (\<lambda>x_t. projr (dot C x_t)) x)"
    by (rule list_comp_map) (use assms in \<open>simp add: dot_def\<close>)
  then show "list_comp (dot C) x = Inr (outputs C x)"
    by (simp add: outputs_def)
  show "\<forall>y\<in>set (outputs C x). length y = shape0 C"
    using assms by (auto simp: outputs_def dot_def)
qed

lemma output_empty_bounds:
  assumes "0 < shape0 C" and "\<forall>v\<in>set x. length v = shape1 C"
  shows "raised (plot_output_trajectory C x h (Some [])) UnboundLocalError"
    and "filter is_legend (calls (plot_output_trajectory C x h (Some []))) = []"
proof -
  let ?t = "time_axis (length x) h"
  let ?y = "outputs C x"
  let ?body = "output_subplot ?y h (Some []) (shape0 C) (int (length x) - 1) ?t"
  note Y = list_comp_dot_ok [OF assms(2)]
  have len: "length ?y = length x" by (simp add: outputs_def)
  have unf: "plot_output_trajectory C x h (Some [])
      = then_do (for_each [0..<shape0 C] ?body None) (\<lambda>_. emit (Xlabel ''$t$''))"
    by (simp add: plot_output_trajectory_def Y(1) Let_def linspace_axis)
  from Y(2) assms(1) have ne: "\<forall>v\<in>set ?y. v \<noteq> []" by auto
  have b: "?body 0 None = ([Subplot (shape0 C) 1 1,
        Draw (Line_plot ?t (map (\<lambda>k. ?y ! k ! 0) [0..<length x]) ''b''),
        Ylabel (''$y_{'' @ str_int 1 @ ''}$''), Xlim 0 ((real (length x) - 1) * h)], Inl UnboundLocalError)"
    using column_0_ok [OF ne] by (simp add: output_subplot_def Let_def len)
  have loop: "for_each [0..<shape0 C] ?body None = (calls (?body 0 None), Inl UnboundLocalError)"
    by (rule for_each_first_fails [OF assms(1)]) (simp add: b)
  show "raised (plot_output_trajectory C x h (Some [])) UnboundLocalError"
    by (simp add: unf loop then_do_def)
  show "filter is_legend (calls (plot_output_trajectory C x h (Some []))) = []"
    by (simp add: unf loop then_do_def b)
qed

subsection \<open>Which exceptions the time-series functions raise\<close>











subsection \<open>The two checks on the explicit solution\<close>






lemma max_py_Inl: "max_py xs = Inl e \<longleftrightarrow> xs = [] \<and> e = ValueError"
  by (cases xs) (auto simp: max_py_def)

lemma min_py_Inl: "min_py xs = Inl e \<longleftrightarrow> xs = [] \<and> e = ValueError"
  by (cases xs) (auto simp: min_py_def)

lemma linspace_Inl: "linspace a b n = Inl e \<longleftrightarrow> n < 0 \<and> e = ValueError"
  by (auto simp: linspace_def Let_def)


subsection \<open>The face colours are the only part of the partition plot that the generator decides\<close>


lemma outcome_then_do:
  "outcome (then_do m f) = (case snd m of Inl e \<Rightarrow> Some e | Inr v \<Rightarrow> outcome (f v))"
  by (cases "snd m") (simp_all add: outcome_def then_do_def)


subsection \<open>Well-formed inputs: the runs return\<close>

lemma for_each_returns:
  assumes "\<And>i s. i \<in> set is \<Longrightarrow> \<exists>s'. snd (body i s) = Inr s'"
  shows "\<exists>s'. snd (for_each is body s) = Inr s'"
  using assms
proof (induction "is" arbitrary: s)
  case Nil
  show ?case by simp
next
  case (Cons i "is")
  from Cons.prems [of i s] obtain s1 where "snd (body i s) = Inr s1" by auto
  moreover from Cons.IH [of s1] Cons.prems obtain s2 where "snd (for_each is body s1) = Inr s2"
    by auto
  ultimately show ?case by (auto simp: then_do_Inr)
qed

lemma plot_bounds_returns:
  assumes "bounds_fit b n" and "i < n"
  shows "\<exists>r. snd (plot_bounds t b i bp) = Inr r \<and> (b \<noteq> None \<longrightarrow> r \<noteq> None)"
proof (cases b)
  case None
  then show ?thesis by (simp add: plot_bounds_def)
next
  case (Some bs)
  with assms have ne: "bs \<noteq> []" and fit: "\<forall>bound\<in>set bs. i < length bound"
    by (auto simp: bounds_fit_def)
  have "\<exists>r. snd (for_each bs (bound_step t i) bp) = Inr r"
    by (rule for_each_returns) (use fit in \<open>simp add: bound_step_eq\<close>)
  then obtain r where r: "snd (for_each bs (bound_step t i) bp) = Inr r" ..
  from for_each_bound_step [OF r] ne have "r \<noteq> None" by simp
  with r Some show ?thesis by (simp add: plot_bounds_def)
qed

lemma make_legend_returns:
  "b \<noteq> None \<longrightarrow> bp \<noteq> None \<Longrightarrow> returns (make_legend i b s bp sl bl)"
  by (cases bp) (auto simp: make_legend_def)

lemma column_fit:
  assumes "\<forall>v\<in>set x. n \<le> length v" and "i < n"
  shows "column x i (int (length x)) = Inr (map (\<lambda>k. x ! k ! i) [0..<length x])"
proof -
  have "k < length x \<and> i < length (x ! k)" if "k < nat (int (length x))" for k
  proof -
    from that have k: "k < length x" by simp
    then have "x ! k \<in> set x" by simp
    with assms(1) have "n \<le> length (x ! k)" by blast
    with assms(2) k show ?thesis by simp
  qed
  from column_ok [of "int (length x)" x i, OF this] show ?thesis by simp
qed

lemma input_subplot_returns:
  assumes "u \<noteq> []" and "\<forall>v\<in>set u. n \<le> length v" and "bounds_fit b n" and "i < n"
  shows "\<exists>r. snd (input_subplot u h b nu (int (length u)) t i bp) = Inr r"
proof -
  from assms(2,4) have "column u i (int (length u)) = Inr (map (\<lambda>k. u ! k ! i) [0..<length u])"
    by (rule column_fit)
  moreover from assms(1)
  have "getitem (map (\<lambda>k. u ! k ! i) [0..<length u]) 0 = Inr (u ! 0 ! i)"
    by (cases "length u") (simp_all add: getitem_0 upt_conv_Cons del: upt_Suc)
  moreover from plot_bounds_returns [OF assms(3,4), of t bp]
  obtain r where "snd (plot_bounds t b i bp) = Inr r" "b \<noteq> None \<longrightarrow> r \<noteq> None"
    by auto
  ultimately show ?thesis
    by (simp add: input_subplot_def Let_def then_do_Inr make_legend_returns)
qed

lemma plot_subplot_returns:
  assumes "\<forall>v\<in>set x. n \<le> length v" and "bounds_fit b n" and "i < n"
  shows "\<exists>r. snd (state_subplot x h b nx (int (length x) - 1) t i bp) = Inr r"
    and "\<exists>r. snd (output_subplot x h b nx (int (length x) - 1) t i bp) = Inr r"
proof -
  from column_fit [OF assms(1,3)]
  have c: "column x i (int (length x) - 1 + 1) = Inr (map (\<lambda>k. x ! k ! i) [0..<length x])"
    by simp
  from plot_bounds_returns [OF assms(2,3), of t bp]
  obtain r where r: "snd (plot_bounds t b i bp) = Inr r" "b \<noteq> None \<longrightarrow> r \<noteq> None"
    by auto
  from c r show "\<exists>r. snd (state_subplot x h b nx (int (length x) - 1) t i bp) = Inr r"
    by (simp add: state_subplot_def Let_def then_do_Inr make_legend_returns)
  from c r show "\<exists>r. snd (output_subplot x h b nx (int (length x) - 1) t i bp) = Inr r"
    by (simp add: output_subplot_def Let_def then_do_Inr make_legend_returns)
qed

lemma plot_input_sequence_returns:
  assumes "u \<noteq> []" and "\<forall>v\<in>set u. length (u ! 0) \<le> length v"
    and "bounds_fit u_bounds (length (u ! 0))"
  shows "returns (plot_input_sequence u h u_bounds)"
proof -
  let ?t = "time_axis (Suc (length u)) h"
  let ?body = "input_subplot u h u_bounds (length (u ! 0)) (int (length u)) ?t"
  from assms(1) have g: "getitem u 0 = Inr (u ! 0)"
    by (simp add: getitem_0)
  have unf: "plot_input_sequence u h u_bounds
      = then_do (for_each [0..<length (u ! 0)] ?body None) (\<lambda>_. emit (Xlabel ''$t$''))"
    by (simp add: plot_input_sequence_def g Let_def linspace_time time_axis_def del: upt_Suc)
  have "\<exists>r. snd (for_each [0..<length (u ! 0)] ?body None) = Inr r"
    by (rule for_each_returns) (use assms in \<open>simp add: input_subplot_returns\<close>)
  then show ?thesis
    by (auto simp: unf then_do_Inr)
qed

lemma plot_state_trajectory_returns:
  assumes "x \<noteq> []" and "\<forall>v\<in>set x. length (x ! 0) \<le> length v"
    and "bounds_fit x_bounds (length (x ! 0))"
  shows "returns (plot_state_trajectory x h x_bounds)"
proof -
  let ?t = "time_axis (length x) h"
  let ?body = "state_subplot x h x_bounds (length (x ! 0)) (int (length x) - 1) ?t"
  from assms(1) have g: "getitem x 0 = Inr (x ! 0)"
    by (simp add: getitem_0)
  have unf: "plot_state_trajectory x h x_bounds
      = then_do (for_each [0..<length (x ! 0)] ?body None) (\<lambda>_. emit (Xlabel ''$t$''))"
    by (simp add: plot_state_trajectory_def g Let_def linspace_axis)
  have "\<exists>r. snd (for_each [0..<length (x ! 0)] ?body None) = Inr r"
    by (rule for_each_returns) (use assms in \<open>simp add: plot_subplot_returns\<close>)
  then show ?thesis
    by (auto simp: unf then_do_Inr)
qed

lemma plot_output_trajectory_returns:
  assumes "\<forall>v\<in>set x. length v = shape1 C" and "bounds_fit y_bounds (shape0 C)"
  shows "returns (plot_output_trajectory C x h y_bounds)"
proof -
  let ?t = "time_axis (length x) h"
  let ?y = "outputs C x"
  let ?body = "output_subplot ?y h y_bounds (shape0 C) (int (length x) - 1) ?t"
  note Y = list_comp_dot_ok [OF assms(1)]
  have len: "length ?y = length x" by (simp add: outputs_def)
  have unf: "plot_output_trajectory C x h y_bounds
      = then_do (for_each [0..<shape0 C] ?body None) (\<lambda>_. emit (Xlabel ''$t$''))"
    by (simp add: plot_output_trajectory_def Y(1) Let_def linspace_axis)
  from Y(2) have fit: "\<forall>v\<in>set ?y. shape0 C \<le> length v" by simp
  have "\<exists>r. snd (for_each [0..<shape0 C] ?body None) = Inr r"
    by (rule for_each_returns)
      (use plot_subplot_returns(2) [OF fit assms(2), unfolded len] in simp)
  then show ?thesis
    by (auto simp: unf then_do_Inr)
qed

section \<open>The claims\<close>

subsection \<open>Dimension checks\<close>




text \<open>
  Claim C2. \<^verbatim>\<open>plot_state_space_trajectory\<close> raises ValueError if and only if the length of
  its \<^verbatim>\<open>dim\<close> argument is not 2; with two indices no ValueError is raised.
\<close>

theorem dimension_check_state_space:
  "raised (plot_state_space_trajectory x dims text label kw) ValueError \<longleftrightarrow> length dims \<noteq> 2"
proof (cases "length dims = 2")
  case False
  then show ?thesis by (simp add: plot_state_space_trajectory_def)
next
  case True
  have "\<not> raised (plot_state_space_trajectory x dims text label kw) ValueError"
    using True
    by (auto simp: plot_state_space_trajectory_def then_do_Inl
        dest!: for_each_error trajectory_step_error text_step_error component_error getitem_error)
  with True show ?thesis by simp
qed

theorem dimension_check_state_space_witness:
  "raised (plot_state_space_trajectory [[1, 2]] [0] False None []) ValueError \<and>
   \<not> raised (plot_state_space_trajectory [[1, 2], [3, 4]] [0, 1] True None []) ValueError"
  using dimension_check_state_space [of "[[1, 2]]" "[0]" False None "[]"]
    dimension_check_state_space [of "[[1, 2], [3, 4]]" "[0, 1]" True None "[]"]
  by simp




subsection \<open>Labels, limits and legends\<close>



text \<open>
  Claim C5. In \<^verbatim>\<open>plot_input_sequence\<close>, \<^verbatim>\<open>plot_state_trajectory\<close> and
  \<^verbatim>\<open>plot_output_trajectory\<close>, every legend issued, on any run, has two entries when the
  bounds argument is not None and one entry when it is None. A run that returns and has at
  least one subplot issues exactly one legend, on the first subplot: \<open>legend_call\<close>, whose
  handles are the series of the first component and, when bounds are given, the line of the
  last bound on the first subplot.
\<close>

theorem legend_entries:
  "(\<forall>c\<in>set (calls (plot_input_sequence u h u_bounds)).
      is_legend c \<longrightarrow> entries c = (if u_bounds = None then 1 else 2)) \<and>
   (\<forall>c\<in>set (calls (plot_state_trajectory x h x_bounds)).
      is_legend c \<longrightarrow> entries c = (if x_bounds = None then 1 else 2)) \<and>
   (\<forall>c\<in>set (calls (plot_output_trajectory C xs h y_bounds)).
      is_legend c \<longrightarrow> entries c = (if y_bounds = None then 1 else 2)) \<and>
   (returns (plot_input_sequence u h u_bounds) \<and> 0 < length (u ! 0) \<longrightarrow>
      map entries (filter is_legend (calls (plot_input_sequence u h u_bounds)))
        = [if u_bounds = None then 1 else 2] \<and>
      filter is_legend (on_subplot (Suc 0) (calls (plot_input_sequence u h u_bounds)))
        = filter is_legend (calls (plot_input_sequence u h u_bounds)) \<and>
      filter is_legend (calls (plot_input_sequence u h u_bounds))
        = [legend_call (time_axis (Suc (length u)) h) u_bounds (input_series u (time_axis (Suc (length u)) h) 0)
             ''Optimal control'' ''Control bounds'']) \<and>
   (returns (plot_state_trajectory x h x_bounds) \<and> 0 < length (x ! 0) \<longrightarrow>
      map entries (filter is_legend (calls (plot_state_trajectory x h x_bounds)))
        = [if x_bounds = None then 1 else 2] \<and>
      filter is_legend (on_subplot (Suc 0) (calls (plot_state_trajectory x h x_bounds)))
        = filter is_legend (calls (plot_state_trajectory x h x_bounds)) \<and>
      filter is_legend (calls (plot_state_trajectory x h x_bounds))
        = [legend_call (time_axis (length x) h) x_bounds (state_series x (time_axis (length x) h) 0)
             ''Optimal trajectory'' ''State bounds'']) \<and>
   (returns (plot_output_trajectory C xs h y_bounds) \<and> 0 < shape0 C \<longrightarrow>
      map entries (filter is_legend (calls (plot_output_trajectory C xs h y_bounds)))
        = [if y_bounds = None then 1 else 2] \<and>
      filter is_legend (on_subplot (Suc 0) (calls (plot_output_trajectory C xs h y_bounds)))
        = filter is_legend (calls (plot_output_trajectory C xs h y_bounds)) \<and>
      filter is_legend (calls (plot_output_trajectory C xs h y_bounds))
        = [legend_call (time_axis (length xs) h) y_bounds (state_series (outputs C xs) (time_axis (length xs) h) 0)
             ''Optimal trajectory'' ''Output bounds''])"
proof (intro conjI impI)
  show "\<forall>c\<in>set (calls (plot_input_sequence u h u_bounds)).
      is_legend c \<longrightarrow> entries c = (if u_bounds = None then 1 else 2)"
    by (rule plot_input_sequence_legends)
  show "\<forall>c\<in>set (calls (plot_state_trajectory x h x_bounds)).
      is_legend c \<longrightarrow> entries c = (if x_bounds = None then 1 else 2)"
    by (rule plot_state_trajectory_legends)
  show "\<forall>c\<in>set (calls (plot_output_trajectory C xs h y_bounds)).
      is_legend c \<longrightarrow> entries c = (if y_bounds = None then 1 else 2)"
    by (rule plot_output_trajectory_legends)
next
  assume "returns (plot_input_sequence u h u_bounds) \<and> 0 < length (u ! 0)"
  then have r: "returns (plot_input_sequence u h u_bounds)" and m: "0 < length (u ! 0)"
    by simp_all
  note eq = plot_input_sequence_calls(1) [OF r]
  show "map entries (filter is_legend (calls (plot_input_sequence u h u_bounds)))
        = [if u_bounds = None then 1 else 2]"
    unfolding eq using m by (simp only: blocks_view if_True) simp_all
  show "filter is_legend (on_subplot (Suc 0) (calls (plot_input_sequence u h u_bounds)))
        = filter is_legend (calls (plot_input_sequence u h u_bounds))"
    unfolding eq using m by (simp only: blocks_view if_True)
  show "filter is_legend (calls (plot_input_sequence u h u_bounds))
        = [legend_call (time_axis (Suc (length u)) h) u_bounds (input_series u (time_axis (Suc (length u)) h) 0)
             ''Optimal control'' ''Control bounds'']"
    unfolding eq using m by (simp only: blocks_view if_True)
next
  assume "returns (plot_state_trajectory x h x_bounds) \<and> 0 < length (x ! 0)"
  then have r: "returns (plot_state_trajectory x h x_bounds)" and m: "0 < length (x ! 0)"
    by simp_all
  note eq = plot_state_trajectory_calls(1) [OF r]
  show "map entries (filter is_legend (calls (plot_state_trajectory x h x_bounds)))
        = [if x_bounds = None then 1 else 2]"
    unfolding eq using m by (simp only: blocks_view if_True) simp_all
  show "filter is_legend (on_subplot (Suc 0) (calls (plot_state_trajectory x h x_bounds)))
        = filter is_legend (calls (plot_state_trajectory x h x_bounds))"
    unfolding eq using m by (simp only: blocks_view if_True)
  show "filter is_legend (calls (plot_state_trajectory x h x_bounds))
        = [legend_call (time_axis (length x) h) x_bounds (state_series x (time_axis (length x) h) 0)
             ''Optimal trajectory'' ''State bounds'']"
    unfolding eq using m by (simp only: blocks_view if_True)
next
  assume "returns (plot_output_trajectory C xs h y_bounds) \<and> 0 < shape0 C"
  then have r: "returns (plot_output_trajectory C xs h y_bounds)" and m: "0 < shape0 C"
    by simp_all
  note eq = plot_output_trajectory_calls(1) [OF r]
  show "map entries (filter is_legend (calls (plot_output_trajectory C xs h y_bounds)))
        = [if y_bounds = None then 1 else 2]"
    unfolding eq using m by (simp only: blocks_view if_True) simp_all
  show "filter is_legend (on_subplot (Suc 0) (calls (plot_output_trajectory C xs h y_bounds)))
        = filter is_legend (calls (plot_output_trajectory C xs h y_bounds))"
    unfolding eq using m by (simp only: blocks_view if_True)
  show "filter is_legend (calls (plot_output_trajectory C xs h y_bounds))
        = [legend_call (time_axis (length xs) h) y_bounds (state_series (outputs C xs) (time_axis (length xs) h) 0)
             ''Optimal trajectory'' ''Output bounds'']"
    unfolding eq using m by (simp only: blocks_view if_True)
qed

theorem legend_entries_witness:
  "returns (plot_input_sequence [[1, 2], [3, 4]] 1 (Some [[0, 0], [9, 9]])) \<and>
   returns (plot_state_trajectory [[1, 2], [3, 4]] 1 None) \<and>
   returns (plot_output_trajectory example_C [[1, 2], [3, 4]] 1 (Some [[0], [9]])) \<and>
   map entries (filter is_legend
       (calls (plot_input_sequence [[1, 2], [3, 4]] 1 (Some [[0, 0], [9, 9]])))) = [2] \<and>
   map entries (filter is_legend (calls (plot_state_trajectory [[1, 2], [3, 4]] 1 None))) = [1] \<and>
   map entries (filter is_legend
       (calls (plot_output_trajectory example_C [[1, 2], [3, 4]] 1 (Some [[0], [9]])))) = [2]"
proof -
  let ?u = "[[1, 2], [3, 4 :: real]]"
  have r: "returns (plot_input_sequence ?u 1 (Some [[0, 0], [9, 9]]))"
    "returns (plot_state_trajectory ?u 1 None)"
    "returns (plot_output_trajectory example_C ?u 1 (Some [[0], [9]]))"
    by code_simp+
  have i: "0 < length (?u ! 0)" "0 < shape0 example_C"
    by (simp_all add: example_C_def)
  from legend_entries [of ?u 1 "Some [[0, 0], [9, 9]]" ?u None example_C ?u "Some [[0], [9]]"] r i
  show ?thesis by simp
qed

subsection \<open>The plotted series\<close>








text \<open>
  Claim C9. When \<^verbatim>\<open>plot_state_space_trajectory\<close> is called with \<^verbatim>\<open>text=True\<close> and
  returns, its text annotations are, for \<open>t = 0, ..., len(x) - 1\<close> in this order, the string
  \<^verbatim>\<open>$x(t)$\<close> placed at \<open>(x[t][0], x[t][1])\<close>, whatever components \<^verbatim>\<open>dim\<close> selects.
\<close>

theorem text_annotations_at_first_two_components:
  assumes "returns (plot_state_space_trajectory x dims True label kw)"
  shows "filter is_text (calls (plot_state_space_trajectory x dims True label kw))
         = map (\<lambda>t. Text (x ! t ! 0) (x ! t ! 1) (''$x('' @ str_int (int t) @ '')$'')) [0..<length x]"
proof -
  from plot_state_space_trajectory_calls [OF assms]
  obtain plots a b where
    eq: "calls (plot_state_space_trajectory x dims True label kw)
       = plots
         @ map (\<lambda>t. Text (x ! t ! 0) (x ! t ! 1) (''$x('' @ str_int (int t) @ '')$'')) [0..<length x]
         @ [Scatter a b [(''color'', ''w''), (''edgecolor'', ''k''), (''zorder'', ''3'')],
            Xlabel (''$x_{'' @ str_int (dims ! 0 + 1) @ ''}$''),
            Ylabel (''$x_{'' @ str_int (dims ! 1 + 1) @ ''}$'')]"
    and plots: "\<forall>c\<in>set plots. \<not> is_text c \<and> \<not> is_xlabel c \<and> \<not> is_ylabel c"
    by auto
  from plots have "filter is_text plots = []"
    by (simp add: filter_empty_conv)
  then show ?thesis
    by (simp add: eq filter_map comp_def)
qed

theorem text_annotations_witness:
  "returns (plot_state_space_trajectory [[1, 2, 9], [3, 4, 9]] [0, 2] True None []) \<and>
   filter is_text (calls (plot_state_space_trajectory [[1, 2, 9], [3, 4, 9]] [0, 2] True None []))
     = [Text 1 2 ''$x(0)$'', Text 3 4 ''$x(1)$'']"
proof -
  have r: "returns (plot_state_space_trajectory [[1, 2, 9], [3, 4, 9]] [0, 2] True None [])"
    by code_simp
  have "map (\<lambda>t. Text ([[1, 2, 9], [3, 4, 9]] ! t ! 0) ([[1, 2, 9], [3, 4, 9]] ! t ! 1)
                 (''$x('' @ str_int (int t) @ '')$'')) [0..<length [[1, 2, 9], [3, 4, 9 :: real]]]
        = [Text 1 2 ''$x(0)$'', Text 3 4 ''$x(1)$'']"
    by code_simp
  with text_annotations_at_first_two_components [OF r] r show ?thesis
    by simp
qed

subsection \<open>Empty bounds\<close>

text \<open>
  Claim C10. With an empty list of bounds, \<^verbatim>\<open>plot_input_sequence\<close> and
  \<^verbatim>\<open>plot_state_trajectory\<close> on a non-empty sequence of non-empty vectors, and
  \<^verbatim>\<open>plot_output_trajectory\<close> on a matrix with at least one row and state vectors of matching
  length, raise UnboundLocalError, and no legend has been issued.
\<close>

theorem empty_bounds_raise_unbound_local:
  "(u \<noteq> [] \<and> (\<forall>v\<in>set u. v \<noteq> []) \<longrightarrow>
      raised (plot_input_sequence u h (Some [])) UnboundLocalError \<and>
      filter is_legend (calls (plot_input_sequence u h (Some []))) = []) \<and>
   (x \<noteq> [] \<and> (\<forall>v\<in>set x. v \<noteq> []) \<longrightarrow>
      raised (plot_state_trajectory x h (Some [])) UnboundLocalError \<and>
      filter is_legend (calls (plot_state_trajectory x h (Some []))) = []) \<and>
   (0 < shape0 C \<and> (\<forall>v\<in>set xs. length v = shape1 C) \<longrightarrow>
      raised (plot_output_trajectory C xs h (Some [])) UnboundLocalError \<and>
      filter is_legend (calls (plot_output_trajectory C xs h (Some []))) = [])"
  using input_empty_bounds [of u h] state_empty_bounds [of x h] output_empty_bounds [of C xs h]
  by blast

theorem empty_bounds_witness:
  "raised (plot_input_sequence [[1, 2], [3, 4]] 1 (Some [])) UnboundLocalError \<and>
   raised (plot_state_trajectory [[1, 2], [3, 4]] 1 (Some [])) UnboundLocalError \<and>
   raised (plot_output_trajectory example_C [[1, 2], [3, 4]] 1 (Some [])) UnboundLocalError"
proof -
  let ?u = "[[1, 2], [3, 4 :: real]]"
  have a: "?u \<noteq> [] \<and> (\<forall>v\<in>set ?u. v \<noteq> [])" by simp
  have b: "0 < shape0 example_C \<and> (\<forall>v\<in>set ?u. length v = shape1 example_C)"
    by (simp add: example_C_def)
  from empty_bounds_raise_unbound_local [of ?u 1 ?u example_C ?u] a b
  show ?thesis by blast
qed

end
